theory Spec2Isabelle
  imports Main "HOL-Library.Word" "HOL-Library.Monad_Syntax"
begin

section \<open>Configuration types (finite\_state\_machine\_conf.h)\<close>

text \<open>
  \<^verbatim>\<open>data_t\<close> and \<^verbatim>\<open>event_id_t\<close> are both \<^verbatim>\<open>int32_t\<close>. The dispatcher only
  copies payloads and compares event identifiers for equality, so the 32-bit word is
  never read as a number.
\<close>

type_synonym data_t = "32 word"
type_synonym event_id_t = "32 word"

text \<open>
  Pointers (to objects and to functions) are addresses. \<^verbatim>\<open>NULL\<close> is the address 0;
  \<^verbatim>\<open>SM_NO_ACTION\<close> and \<^verbatim>\<open>SM_NO_GUARD\<close> are both \<^verbatim>\<open>NULL\<close>.
\<close>

type_synonym ptr = nat

definition NULL :: ptr where
  "NULL = 0"

definition SM_NO_ACTION :: ptr where
  "SM_NO_ACTION = NULL"

definition SM_NO_GUARD :: ptr where
  "SM_NO_GUARD = NULL"

text \<open>\<^verbatim>\<open>typedef struct { event_id_t ID; data_t data; } event_t;\<close>\<close>

record event_t =
  ID :: event_id_t
  data :: data_t

section \<open>Data model (finite\_state\_machine.h)\<close>

text \<open>
  \<^verbatim>\<open>transition_t\<close>: the triggering event, the target state (a pointer), the guard and
  the action (function pointers, \<^verbatim>\<open>NULL\<close> when absent).
\<close>

record transition_t =
  eventID :: event_id_t
  nextState :: ptr
  guard :: ptr
  action :: ptr

text \<open>
  \<^verbatim>\<open>struct state\<close>. The field \<^verbatim>\<open>data\<close> is named \<open>sdata\<close> here, since \<open>data\<close> is
  already the payload field of \<open>event_t\<close>. \<^verbatim>\<open>transitions\<close> is a pointer to the first
  element of an array that lives elsewhere in memory; \<^verbatim>\<open>numTransitions\<close> is a
  \<^verbatim>\<open>size_t\<close>, modelled as \<open>nat\<close>: the loop index is compared with it and never
  exceeds it, so no arithmetic on it can wrap.
\<close>

record state_t =
  sdata :: data_t
  entryAction :: ptr
  exitAction :: ptr
  transitions :: ptr
  numTransitions :: nat

text \<open>\<^verbatim>\<open>typedef struct { state_t* currentState; } state_machine_t;\<close>\<close>

record state_machine_t =
  currentState :: ptr

section \<open>Memory, callbacks and calls\<close>

text \<open>
  The memory a dispatch runs in: one typed heap per object type (a pointer that is not
  in the domain of its heap is invalid: dereferencing it is undefined behaviour, the
  value \<open>None\<close> of the model) and the rest of the program's state, \<open>user\<close>, which only
  the callbacks read and write.
\<close>

record 'u memory =
  fsm_objs :: "ptr \<rightharpoonup> state_machine_t"
  state_objs :: "ptr \<rightharpoonup> state_t"
  transition_arrays :: "ptr \<rightharpoonup> transition_t list"
  event_objs :: "ptr \<rightharpoonup> event_t"
  user :: 'u

text \<open>
  A callback is user code: it receives a payload and the event pointer and may change
  any part of the memory. A guard also returns a boolean. The two tables give the
  function that each function pointer denotes:
  \<^verbatim>\<open>bool ( *guard )( data_t stateData, event_t* event )\<close> and
  \<^verbatim>\<open>void ( *action )( data_t stateData, event_t* event )\<close> (the type of entry and exit
  actions too). Callbacks are total here: a callback that does not return is outside
  the model.
\<close>

type_synonym 'u guard_table = "ptr \<Rightarrow> data_t \<Rightarrow> ptr \<Rightarrow> 'u memory \<Rightarrow> bool \<times> 'u memory"
type_synonym 'u action_table = "ptr \<Rightarrow> data_t \<Rightarrow> ptr \<Rightarrow> 'u memory \<Rightarrow> 'u memory"

text \<open>
  The calls a dispatch makes, in order: the function pointer called, the payload and the
  event pointer passed. The list is a record of the execution and influences nothing.
\<close>

datatype call =
  is_GuardCall: GuardCall (callee: ptr) (payload: data_t) (event_arg: ptr)
| ActionCall (callee: ptr) (payload: data_t) (event_arg: ptr)

section \<open>The dispatcher\<close>

text \<open>\<^verbatim>\<open>fsm->currentState\<close> dereferenced: both pointers must be valid.\<close>

definition current_state :: "'u memory \<Rightarrow> ptr \<Rightarrow> state_t option" where
  "current_state m fsm = do {
     sm \<leftarrow> fsm_objs m fsm;
     state_objs m (currentState sm)
   }"

text \<open>
  A pointer to a transition is the address of its array and an index.
  \<^verbatim>\<open>a[ i ]\<close> is defined only inside the array.
\<close>

type_synonym transition_ptr = "ptr \<times> nat"

definition deref_transition :: "'u memory \<Rightarrow> transition_ptr \<Rightarrow> transition_t option" where
  "deref_transition m tp = do {
     ts \<leftarrow> transition_arrays m (fst tp);
     if snd tp < length ts then Some (ts ! snd tp) else None
   }"

text \<open>
  The search loop of \<^verbatim>\<open>fsm_handle_event\<close>, from index \<open>i\<close>:
  \<^verbatim>\<open>
    for( size_t i = 0; i < fsm->currentState->numTransitions; ++i )
    {
        if( fsm->currentState->transitions[ i ].eventID == event->ID )
        {
            transition = &fsm->currentState->transitions[ i ];
            break;
        }
    }
  \<close>
  The result is the value of \<^verbatim>\<open>transition\<close> after the loop (\<open>None\<close> for \<^verbatim>\<open>NULL\<close>) and
  the number of times the loop body ran.
\<close>

function find_transition ::
  "'u memory \<Rightarrow> ptr \<Rightarrow> ptr \<Rightarrow> nat \<Rightarrow> (transition_ptr option \<times> nat) option" where
  "find_transition m fsm event i = do {
     s \<leftarrow> current_state m fsm;
     if i < numTransitions s then do {
       t \<leftarrow> deref_transition m (transitions s, i);
       ev \<leftarrow> event_objs m event;
       if eventID t = ID ev then Some (Some (transitions s, i), 1)
       else do {
         (transition, n) \<leftarrow> find_transition m fsm event (Suc i);
         Some (transition, Suc n)
       }
     } else Some (None, 0)
   }"
  by pat_completeness auto
termination
  by (relation "measure (\<lambda>(m, fsm, event, i).
        case current_state m fsm of None \<Rightarrow> 0 | Some s \<Rightarrow> numTransitions s - i)") auto

text \<open>
  \<^verbatim>\<open>
    bool guardResult = true;
    if( transition->guard )
    {
        guardResult = transition->guard( fsm->currentState->data, event );
    }
  \<close>
  The result is \<^verbatim>\<open>guardResult\<close>, the memory the guard left and the call made.
\<close>

definition guard_step ::
  "'u guard_table \<Rightarrow> ptr \<Rightarrow> transition_ptr \<Rightarrow> ptr \<Rightarrow> 'u memory
     \<Rightarrow> (bool \<times> 'u memory \<times> call list) option" where
  "guard_step gfun fsm transition event m = do {
     t \<leftarrow> deref_transition m transition;
     if guard t \<noteq> NULL then do {
       s \<leftarrow> current_state m fsm;
       let (guardResult, m') = gfun (guard t) (sdata s) event m;
       Some (guardResult, m', [GuardCall (guard t) (sdata s) event])
     } else Some (True, m, [])
   }"

text \<open>
  \<^verbatim>\<open>
    if( fsm->currentState->exitAction )
    {
        fsm->currentState->exitAction( fsm->currentState->data, event );
    }
  \<close>
\<close>

definition exit_step ::
  "'u action_table \<Rightarrow> ptr \<Rightarrow> ptr \<Rightarrow> 'u memory \<Rightarrow> ('u memory \<times> call list) option" where
  "exit_step afun fsm event m = do {
     s \<leftarrow> current_state m fsm;
     if exitAction s \<noteq> NULL
     then Some (afun (exitAction s) (sdata s) event m,
                [ActionCall (exitAction s) (sdata s) event])
     else Some (m, [])
   }"

text \<open>
  \<^verbatim>\<open>
    if( transition->action )
    {
        transition->action( fsm->currentState->data, event );
    }
  \<close>
\<close>

definition action_step ::
  "'u action_table \<Rightarrow> ptr \<Rightarrow> transition_ptr \<Rightarrow> ptr \<Rightarrow> 'u memory
     \<Rightarrow> ('u memory \<times> call list) option" where
  "action_step afun fsm transition event m = do {
     t \<leftarrow> deref_transition m transition;
     if action t \<noteq> NULL then do {
       s \<leftarrow> current_state m fsm;
       Some (afun (action t) (sdata s) event m, [ActionCall (action t) (sdata s) event])
     } else Some (m, [])
   }"

text \<open>
  \<^verbatim>\<open>
    if( transition->nextState->entryAction )
    {
        transition->nextState->entryAction( transition->nextState->data, event );
    }
  \<close>
\<close>

definition entry_step ::
  "'u action_table \<Rightarrow> transition_ptr \<Rightarrow> ptr \<Rightarrow> 'u memory
     \<Rightarrow> ('u memory \<times> call list) option" where
  "entry_step afun transition event m = do {
     t \<leftarrow> deref_transition m transition;
     s' \<leftarrow> state_objs m (nextState t);
     if entryAction s' \<noteq> NULL
     then Some (afun (entryAction s') (sdata s') event m,
                [ActionCall (entryAction s') (sdata s') event])
     else Some (m, [])
   }"

text \<open>\<^verbatim>\<open>fsm->currentState = transition->nextState;\<close>\<close>

definition set_current_state :: "ptr \<Rightarrow> transition_ptr \<Rightarrow> 'u memory \<Rightarrow> 'u memory option" where
  "set_current_state fsm transition m = do {
     t \<leftarrow> deref_transition m transition;
     sm \<leftarrow> fsm_objs m fsm;
     Some (m\<lparr>fsm_objs := (fsm_objs m)(fsm \<mapsto> sm\<lparr>currentState := nextState t\<rparr>)\<rparr>)
   }"

text \<open>
  \<^verbatim>\<open>static bool fsm_handle_event( state_machine_t* fsm, event_t* event )\<close>.
  The result is \<open>None\<close> when the run dereferences an invalid pointer, and otherwise
  \<^verbatim>\<open>retVal\<close>, the memory at return and the calls made, in order.
\<close>

definition fsm_handle_event ::
  "'u guard_table \<Rightarrow> 'u action_table \<Rightarrow> ptr \<Rightarrow> ptr \<Rightarrow> 'u memory
     \<Rightarrow> (bool \<times> 'u memory \<times> call list) option" where
  "fsm_handle_event gfun afun fsm event m = do {
     (found, n) \<leftarrow> find_transition m fsm event 0;
     case found of
       None \<Rightarrow> Some (False, m, [])
     | Some transition \<Rightarrow> do {
         (guardResult, m1, c1) \<leftarrow> guard_step gfun fsm transition event m;
         if guardResult then do {
           (m2, c2) \<leftarrow> exit_step afun fsm event m1;
           (m3, c3) \<leftarrow> action_step afun fsm transition event m2;
           (m4, c4) \<leftarrow> entry_step afun transition event m3;
           m5 \<leftarrow> set_current_state fsm transition m4;
           Some (True, m5, c1 @ c2 @ c3 @ c4)
         } else Some (False, m1, c1)
       }
   }"

section \<open>Notions used to state the properties\<close>

text \<open>
  The first transition, in declaration order, among the \<^verbatim>\<open>numTransitions\<close> declared
  ones whose event identifier equals the event's identifier.
\<close>

definition first_match :: "state_t \<Rightarrow> transition_t list \<Rightarrow> event_t \<Rightarrow> transition_t option" where
  "first_match s ts ev = find (\<lambda>t. eventID t = ID ev) (take (numTransitions s) ts)"

text \<open>The effect on the memory of a list of calls, made in order and by nobody else.\<close>

fun apply_call :: "'u guard_table \<Rightarrow> 'u action_table \<Rightarrow> call \<Rightarrow> 'u memory \<Rightarrow> 'u memory" where
  "apply_call gfun afun (GuardCall f d e) m = snd (gfun f d e m)"
| "apply_call gfun afun (ActionCall f d e) m = afun f d e m"

definition run_calls ::
  "'u guard_table \<Rightarrow> 'u action_table \<Rightarrow> call list \<Rightarrow> 'u memory \<Rightarrow> 'u memory" where
  "run_calls gfun afun cs m = fold (apply_call gfun afun) cs m"

text \<open>
  Two memories with the same states and transition arrays, in which the machine at \<open>fsm\<close>
  is in the same state. The specification takes the topology as immutable while a
  machine uses it and forbids a callback to dispatch on the machine that is calling it:
  \<open>callbacks_keep_machine\<close> says that of every callback of the two tables. A callback
  may write everything else: the events, other machines, the rest of the memory.
\<close>

definition same_machine :: "ptr \<Rightarrow> 'u memory \<Rightarrow> 'u memory \<Rightarrow> bool" where
  "same_machine fsm m m' \<longleftrightarrow>
     fsm_objs m' fsm = fsm_objs m fsm \<and> state_objs m' = state_objs m \<and>
     transition_arrays m' = transition_arrays m"

definition callbacks_keep_machine :: "ptr \<Rightarrow> 'u guard_table \<Rightarrow> 'u action_table \<Rightarrow> bool" where
  "callbacks_keep_machine fsm gfun afun \<longleftrightarrow>
     (\<forall>f d e m. same_machine fsm m (snd (gfun f d e m))) \<and>
     (\<forall>f d e m. same_machine fsm m (afun f d e m))"

text \<open>
  A pure guard: its verdict depends on nothing but the function called, the payload and
  the event it is given.
\<close>

definition pure_guards :: "'u guard_table \<Rightarrow> bool" where
  "pure_guards gfun \<longleftrightarrow>
     (\<forall>f d e m m'. event_objs m e = event_objs m' e \<longrightarrow>
        fst (gfun f d e m) = fst (gfun f d e m'))"

text \<open>
  The calls of a dispatch that finds transition \<open>t\<close> in state \<open>s\<close>: the guard, and when
  the transition fires towards \<open>s'\<close> the exit action, the action and the entry action.
\<close>

definition guard_calls :: "transition_t \<Rightarrow> state_t \<Rightarrow> ptr \<Rightarrow> call list" where
  "guard_calls t s event =
     (if guard t \<noteq> NULL then [GuardCall (guard t) (sdata s) event] else [])"

definition firing_calls :: "transition_t \<Rightarrow> state_t \<Rightarrow> state_t \<Rightarrow> ptr \<Rightarrow> call list" where
  "firing_calls t s s' event =
     (if exitAction s \<noteq> NULL then [ActionCall (exitAction s) (sdata s) event] else []) @
     (if action t \<noteq> NULL then [ActionCall (action t) (sdata s) event] else []) @
     (if entryAction s' \<noteq> NULL then [ActionCall (entryAction s') (sdata s') event] else [])"

section \<open>A concrete machine\<close>

text \<open>
  Two states. \<open>Locked\<close> (at address 10, payload 1) declares three transitions: on event 5
  to \<open>Unlocked\<close>, guarded by function 16; on event 5 again, back to \<open>Locked\<close>,
  guarded by function 17 (a duplicate, never reached); on event 6 to \<open>Locked\<close> itself,
  unguarded. \<open>Unlocked\<close> (at address 20, payload 2) declares none. The machine at 30 is
  in \<open>Locked\<close>, the machine at 40 in \<open>Unlocked\<close>. Every guard accepts an event whose
  payload is 42, and every callback appends its own call to the log \<open>user\<close>.
\<close>

definition demo_locked :: state_t where
  "demo_locked =
     \<lparr>sdata = 1, entryAction = 11, exitAction = 12, transitions = 100, numTransitions = 3\<rparr>"

definition demo_unlocked :: state_t where
  "demo_unlocked =
     \<lparr>sdata = 2, entryAction = 21, exitAction = SM_NO_ACTION, transitions = NULL,
      numTransitions = 0\<rparr>"

definition demo_transitions :: "transition_t list" where
  "demo_transitions =
     [\<lparr>eventID = 5, nextState = 20, guard = 16, action = 13\<rparr>,
      \<lparr>eventID = 5, nextState = 10, guard = 17, action = 14\<rparr>,
      \<lparr>eventID = 6, nextState = 10, guard = SM_NO_GUARD, action = 15\<rparr>]"

definition demo_memory :: "call list memory" where
  "demo_memory =
     \<lparr>fsm_objs = [30 \<mapsto> \<lparr>currentState = 10\<rparr>, 40 \<mapsto> \<lparr>currentState = 20\<rparr>],
      state_objs = [10 \<mapsto> demo_locked, 20 \<mapsto> demo_unlocked],
      transition_arrays = [100 \<mapsto> demo_transitions],
      event_objs = [50 \<mapsto> \<lparr>ID = 5, data = 42\<rparr>, 51 \<mapsto> \<lparr>ID = 5, data = 7\<rparr>,
                    52 \<mapsto> \<lparr>ID = 6, data = 0\<rparr>, 53 \<mapsto> \<lparr>ID = 9, data = 0\<rparr>],
      user = []\<rparr>"

definition demo_guards :: "call list guard_table" where
  "demo_guards f d e m =
     ((case event_objs m e of None \<Rightarrow> False | Some ev \<Rightarrow> data ev = 42),
      m\<lparr>user := user m @ [GuardCall f d e]\<rparr>)"

definition demo_actions :: "call list action_table" where
  "demo_actions f d e m = m\<lparr>user := user m @ [ActionCall f d e]\<rparr>"

section \<open>The search loop\<close>

text \<open>
  The defining equation of the loop is recursive without a pattern: it is unfolded by
  hand, one iteration at a time.
\<close>

declare find_transition.simps [simp del]

lemma find_transition_exhausted:
  assumes "current_state m fsm = Some s" and "numTransitions s \<le> i"
  shows "find_transition m fsm event i = Some (None, 0)"
  using assms by (subst find_transition.simps) simp

lemma find_transition_miss:
  assumes "current_state m fsm = Some s"
    and "transition_arrays m (transitions s) = Some ts"
    and "numTransitions s \<le> length ts"
    and "event_objs m event = Some ev"
    and "\<forall>k. i \<le> k \<and> k < numTransitions s \<longrightarrow> eventID (ts ! k) \<noteq> ID ev"
    and "i \<le> numTransitions s"
  shows "find_transition m fsm event i = Some (None, numTransitions s - i)"
  using assms
proof (induction "numTransitions s - i" arbitrary: i)
  case 0
  then show ?case by (simp add: find_transition_exhausted)
next
  case (Suc d)
  then have lt: "i < numTransitions s" and ne: "eventID (ts ! i) \<noteq> ID ev" by auto
  have "find_transition m fsm event (Suc i) = Some (None, numTransitions s - Suc i)"
    using Suc by (intro Suc.hyps(1)) auto
  with Suc.prems lt ne show ?case
    by (subst find_transition.simps) (simp add: deref_transition_def Suc_diff_Suc)
qed

lemma find_transition_hit:
  assumes "current_state m fsm = Some s"
    and "transition_arrays m (transitions s) = Some ts"
    and "numTransitions s \<le> length ts"
    and "event_objs m event = Some ev"
    and "j < numTransitions s"
    and "eventID (ts ! j) = ID ev"
    and "\<forall>k. i \<le> k \<and> k < j \<longrightarrow> eventID (ts ! k) \<noteq> ID ev"
    and "i \<le> j"
  shows "find_transition m fsm event i = Some (Some (transitions s, j), Suc (j - i))"
  using assms
proof (induction "j - i" arbitrary: i)
  case 0
  then have "i = j" by simp
  with 0 show ?case
    by (subst find_transition.simps) (simp add: deref_transition_def)
next
  case (Suc d)
  then have lt: "i < j" and ne: "eventID (ts ! i) \<noteq> ID ev" by auto
  have "find_transition m fsm event (Suc i) = Some (Some (transitions s, j), Suc (j - Suc i))"
    using Suc lt by (intro Suc.hyps(1)) auto
  with Suc.prems lt ne show ?case
    by (subst find_transition.simps) (simp add: deref_transition_def Suc_diff_Suc)
qed

lemma first_match_Some_index:
  assumes "first_match s ts ev = Some t" and "numTransitions s \<le> length ts"
  shows "\<exists>j<numTransitions s. ts ! j = t \<and> eventID t = ID ev \<and>
           (\<forall>k<j. eventID (ts ! k) \<noteq> ID ev)"
proof -
  from assms(1) obtain j where j: "j < length (take (numTransitions s) ts)"
      "eventID (take (numTransitions s) ts ! j) = ID ev"
      "t = take (numTransitions s) ts ! j"
      "\<forall>k<j. eventID (take (numTransitions s) ts ! k) \<noteq> ID ev"
    unfolding first_match_def find_Some_iff by blast
  with assms(2) have "j < numTransitions s" by simp
  with j show ?thesis by (intro exI [of _ j]) auto
qed

lemma first_match_None_index:
  assumes "first_match s ts ev = None" and "numTransitions s \<le> length ts"
  shows "\<forall>k<numTransitions s. eventID (ts ! k) \<noteq> ID ev"
proof (intro allI impI)
  fix k assume k: "k < numTransitions s"
  with assms(2) have "take (numTransitions s) ts ! k \<in> set (take (numTransitions s) ts)"
    by (intro nth_mem) simp
  with assms(1) k show "eventID (ts ! k) \<noteq> ID ev"
    by (auto simp: first_match_def find_None_iff)
qed

lemma first_match_at_index:
  assumes "i < numTransitions s" and "numTransitions s \<le> length ts"
    and "eventID (ts ! i) = ID ev" and "\<forall>k<i. eventID (ts ! k) \<noteq> ID ev"
  shows "first_match s ts ev = Some (ts ! i)"
  unfolding first_match_def find_Some_iff
  using assms by (intro exI [of _ i]) auto

lemma find_transition_first_match:
  assumes "current_state m fsm = Some s"
    and "transition_arrays m (transitions s) = Some ts"
    and "numTransitions s \<le> length ts"
    and "event_objs m event = Some ev"
    and "first_match s ts ev = Some t"
  shows "\<exists>j<numTransitions s. ts ! j = t \<and>
           find_transition m fsm event 0 = Some (Some (transitions s, j), Suc j)"
proof -
  from first_match_Some_index [OF assms(5,3)] obtain j where
    j: "j < numTransitions s" "ts ! j = t" "eventID t = ID ev" "\<forall>k<j. eventID (ts ! k) \<noteq> ID ev"
    by blast
  then have "find_transition m fsm event 0 = Some (Some (transitions s, j), Suc (j - 0))"
    by (intro find_transition_hit [OF assms(1-4)]) auto
  with j show ?thesis by auto
qed

lemma find_transition_no_match:
  assumes "current_state m fsm = Some s"
    and "transition_arrays m (transitions s) = Some ts"
    and "numTransitions s \<le> length ts"
    and "event_objs m event = Some ev"
    and "first_match s ts ev = None"
  shows "find_transition m fsm event 0 = Some (None, numTransitions s)"
  using find_transition_miss [OF assms(1-4), of 0] first_match_None_index [OF assms(5,3)]
  by simp

lemma find_transition_valid:
  assumes "find_transition m fsm event i = Some x"
  shows "\<exists>sm s. fsm_objs m fsm = Some sm \<and> state_objs m (currentState sm) = Some s"
proof (cases "current_state m fsm")
  case None
  with assms show ?thesis by (subst (asm) find_transition.simps) simp
next
  case (Some s)
  then show ?thesis
    by (auto simp: current_state_def split: Option.bind_splits)
qed

lemma find_transition_deref:
  assumes "find_transition m fsm event i = Some (Some tp, n)"
  shows "\<exists>t. deref_transition m tp = Some t"
proof -
  from find_transition_valid [OF assms] obtain s where cur: "current_state m fsm = Some s"
    by (auto simp: current_state_def)
  from assms show ?thesis
  proof (induction "numTransitions s - i" arbitrary: i n)
    case 0
    with cur show ?case by (subst (asm) find_transition.simps) simp
  next
    case (Suc d)
    then have lt: "i < numTransitions s" by simp
    from Suc.prems cur lt show ?case
      apply (subst (asm) find_transition.simps)
      apply (auto split: Option.bind_splits if_splits)
      using Suc.hyps by (metis Suc_diff_Suc Suc_inject)
  qed
qed

section \<open>Callbacks that keep the machine and the topology\<close>

lemma same_machine_current_state:
  "same_machine fsm m m' \<Longrightarrow> current_state m' fsm = current_state m fsm"
  by (simp add: same_machine_def current_state_def)

lemma same_machine_deref_transition:
  "same_machine fsm m m' \<Longrightarrow> deref_transition m' tp = deref_transition m tp"
  by (simp add: same_machine_def deref_transition_def)

lemma same_machine_trans:
  "same_machine fsm m m' \<Longrightarrow> same_machine fsm m' m'' \<Longrightarrow> same_machine fsm m m''"
  by (simp add: same_machine_def)

lemma same_machine_refl: "same_machine fsm m m"
  by (simp add: same_machine_def)

lemma keep_machine_guard:
  "callbacks_keep_machine fsm gfun afun \<Longrightarrow> same_machine fsm m (snd (gfun f d e m))"
  by (simp add: callbacks_keep_machine_def)

lemma keep_machine_action:
  "callbacks_keep_machine fsm gfun afun \<Longrightarrow> same_machine fsm m (afun f d e m)"
  by (simp add: callbacks_keep_machine_def)

lemma run_calls_Nil: "run_calls gfun afun [] m = m"
  by (simp add: run_calls_def)

lemma run_calls_append:
  "run_calls gfun afun (cs @ ds) m = run_calls gfun afun ds (run_calls gfun afun cs m)"
  by (simp add: run_calls_def)

lemma run_calls_guard: "run_calls gfun afun [GuardCall f d e] m = snd (gfun f d e m)"
  by (simp add: run_calls_def)

lemma run_calls_action: "run_calls gfun afun [ActionCall f d e] m = afun f d e m"
  by (simp add: run_calls_def)

lemma keep_machine_run_calls:
  assumes "callbacks_keep_machine fsm gfun afun"
  shows "same_machine fsm m (run_calls gfun afun cs m)"
proof (induction cs arbitrary: m)
  case Nil
  show ?case by (simp add: run_calls_def same_machine_refl)
next
  case (Cons c cs)
  have "same_machine fsm m (apply_call gfun afun c m)"
    using assms by (cases c) (simp_all add: keep_machine_guard keep_machine_action)
  moreover have "same_machine fsm (apply_call gfun afun c m) (run_calls gfun afun cs (apply_call gfun afun c m))"
    by (rule Cons.IH)
  ultimately show ?case
    unfolding run_calls_def fold_simps by (rule same_machine_trans)
qed

lemma find_transition_same_machine:
  assumes "same_machine fsm m1 m2" and "event_objs m1 event = event_objs m2 event"
  shows "find_transition m2 fsm event i = find_transition m1 fsm event i"
proof (cases "current_state m1 fsm")
  case None
  moreover from None assms(1) have "current_state m2 fsm = None"
    by (simp add: same_machine_current_state)
  ultimately show ?thesis
    by (subst (1 2) find_transition.simps) simp
next
  case (Some s)
  with assms(1) have cur2: "current_state m2 fsm = Some s"
    by (simp add: same_machine_current_state)
  show ?thesis
  proof (induction "numTransitions s - i" arbitrary: i)
    case 0
    with Some cur2 show ?case by (simp add: find_transition_exhausted)
  next
    case (Suc d)
    then have eq: "find_transition m2 fsm event (Suc i) = find_transition m1 fsm event (Suc i)"
      by (intro Suc.hyps(1)) simp
    show ?case
      by (subst (1 2) find_transition.simps)
        (simp add: Some cur2 eq assms(2) [symmetric]
           same_machine_deref_transition [OF assms(1)] cong: if_cong)
  qed
qed

section \<open>The steps of a dispatch\<close>

lemma fsm_handle_event_not_found:
  "find_transition m fsm event 0 = Some (None, n) \<Longrightarrow>
   fsm_handle_event gfun afun fsm event m = Some (False, m, [])"
  by (simp add: fsm_handle_event_def)

lemma guard_step_eq:
  assumes "deref_transition m tp = Some t" and "current_state m fsm = Some s"
  shows "guard_step gfun fsm tp event m =
           Some (guard t = NULL \<or> fst (gfun (guard t) (sdata s) event m),
                 run_calls gfun afun (if guard t \<noteq> NULL then [GuardCall (guard t) (sdata s) event] else []) m,
                 if guard t \<noteq> NULL then [GuardCall (guard t) (sdata s) event] else [])"
  using assms
  by (simp add: guard_step_def run_calls_Nil run_calls_guard split: prod.split)

lemma exit_step_eq:
  assumes "current_state m fsm = Some s"
  shows "exit_step afun fsm event m =
           Some (run_calls gfun afun (if exitAction s \<noteq> NULL then [ActionCall (exitAction s) (sdata s) event] else []) m,
                 if exitAction s \<noteq> NULL then [ActionCall (exitAction s) (sdata s) event] else [])"
  using assms by (simp add: exit_step_def run_calls_Nil run_calls_action)

lemma action_step_eq:
  assumes "deref_transition m tp = Some t" and "current_state m fsm = Some s"
  shows "action_step afun fsm tp event m =
           Some (run_calls gfun afun (if action t \<noteq> NULL then [ActionCall (action t) (sdata s) event] else []) m,
                 if action t \<noteq> NULL then [ActionCall (action t) (sdata s) event] else [])"
  using assms by (simp add: action_step_def run_calls_Nil run_calls_action)

lemma entry_step_eq:
  assumes "deref_transition m tp = Some t" and "state_objs m (nextState t) = Some s'"
  shows "entry_step afun tp event m =
           Some (run_calls gfun afun (if entryAction s' \<noteq> NULL then [ActionCall (entryAction s') (sdata s') event] else []) m,
                 if entryAction s' \<noteq> NULL then [ActionCall (entryAction s') (sdata s') event] else [])"
  using assms by (simp add: entry_step_def run_calls_Nil run_calls_action)

lemma state_machine_update:
  "(sm :: state_machine_t)\<lparr>currentState := p\<rparr> = \<lparr>currentState = p\<rparr>"
  by (cases sm) simp

lemma set_current_state_eq:
  assumes "deref_transition m tp = Some t" and "fsm_objs m fsm = Some sm"
  shows "set_current_state fsm tp m =
           Some (m\<lparr>fsm_objs := (fsm_objs m)(fsm \<mapsto> \<lparr>currentState = nextState t\<rparr>)\<rparr>)"
  using assms by (simp add: set_current_state_def state_machine_update)






section \<open>A dispatch that finds a transition\<close>

text \<open>
  With callbacks that keep the machine and the topology, every read after a callback
  returns what it returned before the first one, and the whole run is determined by the
  transition found, the current state and the target state.
\<close>

lemma dispatch_found:
  assumes keep: "callbacks_keep_machine fsm gfun afun"
    and sm: "fsm_objs m fsm = Some sm"
    and s: "state_objs m (currentState sm) = Some s"
    and found: "find_transition m fsm event 0 = Some (Some tp, n)"
    and t: "deref_transition m tp = Some t"
  shows "fsm_handle_event gfun afun fsm event m =
           (if guard t = NULL \<or> fst (gfun (guard t) (sdata s) event m)
            then (case state_objs m (nextState t) of
                    None \<Rightarrow> None
                  | Some s' \<Rightarrow>
                      Some (True,
                        (run_calls gfun afun (guard_calls t s event @ firing_calls t s s' event) m)
                          \<lparr>fsm_objs :=
                             (fsm_objs (run_calls gfun afun
                                (guard_calls t s event @ firing_calls t s s' event) m))
                             (fsm \<mapsto> \<lparr>currentState = nextState t\<rparr>)\<rparr>,
                        guard_calls t s event @ firing_calls t s s' event))
            else Some (False, run_calls gfun afun (guard_calls t s event) m, guard_calls t s event))"
proof -
  let ?gc = "guard_calls t s event"
  let ?m1 = "run_calls gfun afun ?gc m"
  have cur: "current_state m fsm = Some s"
    using sm s by (simp add: current_state_def)
  have g: "guard_step gfun fsm tp event m =
             Some (guard t = NULL \<or> fst (gfun (guard t) (sdata s) event m), ?m1, ?gc)"
    unfolding guard_calls_def by (rule guard_step_eq [OF t cur])
  have top1: "same_machine fsm m ?m1"
    by (rule keep_machine_run_calls [OF keep])
  show ?thesis
  proof (cases "guard t = NULL \<or> fst (gfun (guard t) (sdata s) event m)")
    case False
    with found g show ?thesis by (simp add: fsm_handle_event_def)
  next
    case True
    let ?ec = "if exitAction s \<noteq> NULL then [ActionCall (exitAction s) (sdata s) event] else []"
    let ?ac = "if action t \<noteq> NULL then [ActionCall (action t) (sdata s) event] else []"
    let ?m2 = "run_calls gfun afun ?ec ?m1"
    let ?m3 = "run_calls gfun afun ?ac ?m2"
    have top2: "same_machine fsm m ?m2"
      by (rule same_machine_trans [OF top1 keep_machine_run_calls [OF keep]])
    have top3: "same_machine fsm m ?m3"
      by (rule same_machine_trans [OF top2 keep_machine_run_calls [OF keep]])
    have e: "exit_step afun fsm event ?m1 = Some (?m2, ?ec)"
      by (rule exit_step_eq) (simp add: same_machine_current_state [OF top1] cur)
    have a: "action_step afun fsm tp event ?m2 = Some (?m3, ?ac)"
      by (rule action_step_eq)
        (simp_all add: same_machine_current_state [OF top2]
           same_machine_deref_transition [OF top2] cur t)
    have t3: "deref_transition ?m3 tp = Some t"
      by (simp add: same_machine_deref_transition [OF top3] t)
    have st3: "state_objs ?m3 = state_objs m"
      using top3 by (simp add: same_machine_def)
    show ?thesis
    proof (cases "state_objs m (nextState t)")
      case None
      then have "entry_step afun tp event ?m3 = None"
        using t3 st3 by (simp add: entry_step_def)
      with True found g e a None show ?thesis
        by (simp add: fsm_handle_event_def)
    next
      case (Some s')
      let ?nc = "if entryAction s' \<noteq> NULL then [ActionCall (entryAction s') (sdata s') event] else []"
      let ?m4 = "run_calls gfun afun ?nc ?m3"
      have top4: "same_machine fsm m ?m4"
        by (rule same_machine_trans [OF top3 keep_machine_run_calls [OF keep]])
      have n: "entry_step afun tp event ?m3 = Some (?m4, ?nc)"
        by (rule entry_step_eq [OF t3]) (simp add: st3 Some)
      have fo4: "fsm_objs ?m4 fsm = Some sm"
        using top4 sm by (simp add: same_machine_def)
      have c: "set_current_state fsm tp ?m4 =
                 Some (?m4\<lparr>fsm_objs := (fsm_objs ?m4)(fsm \<mapsto> \<lparr>currentState = nextState t\<rparr>)\<rparr>)"
        by (rule set_current_state_eq [OF _ fo4])
          (simp add: same_machine_deref_transition [OF top4] t)
      have m4: "?m4 = run_calls gfun afun (?gc @ firing_calls t s s' event) m"
        by (simp only: firing_calls_def run_calls_append)
      have "fsm_handle_event gfun afun fsm event m =
              Some (True, ?m4\<lparr>fsm_objs := (fsm_objs ?m4)(fsm \<mapsto> \<lparr>currentState = nextState t\<rparr>)\<rparr>,
                    ?gc @ ?ec @ ?ac @ ?nc)"
        using True found g e a n c by (simp add: fsm_handle_event_def)
      then show ?thesis
        using True Some by (simp only: m4 firing_calls_def) simp
    qed
  qed
qed

lemma dispatch_first_match:
  assumes keep: "callbacks_keep_machine fsm gfun afun"
    and sm: "fsm_objs m fsm = Some sm"
    and s: "state_objs m (currentState sm) = Some s"
    and ts: "transition_arrays m (transitions s) = Some ts"
    and le: "numTransitions s \<le> length ts"
    and ev: "event_objs m event = Some ev"
    and fm: "first_match s ts ev = Some t"
  shows "fsm_handle_event gfun afun fsm event m =
           (if guard t = NULL \<or> fst (gfun (guard t) (sdata s) event m)
            then (case state_objs m (nextState t) of
                    None \<Rightarrow> None
                  | Some s' \<Rightarrow>
                      Some (True,
                        (run_calls gfun afun (guard_calls t s event @ firing_calls t s s' event) m)
                          \<lparr>fsm_objs :=
                             (fsm_objs (run_calls gfun afun
                                (guard_calls t s event @ firing_calls t s s' event) m))
                             (fsm \<mapsto> \<lparr>currentState = nextState t\<rparr>)\<rparr>,
                        guard_calls t s event @ firing_calls t s s' event))
            else Some (False, run_calls gfun afun (guard_calls t s event) m, guard_calls t s event))"
proof -
  have cur: "current_state m fsm = Some s"
    using sm s by (simp add: current_state_def)
  from find_transition_first_match [OF cur ts le ev fm] obtain j where
    j: "j < numTransitions s" "ts ! j = t"
       "find_transition m fsm event 0 = Some (Some (transitions s, j), Suc j)"
    by blast
  have "deref_transition m (transitions s, j) = Some t"
    using j le ts by (simp add: deref_transition_def)
  from dispatch_found [OF keep sm s j(3) this] show ?thesis .
qed

lemma guard_calls_callees:
  "callee ` {c \<in> set (guard_calls t s event). is_GuardCall c} \<subseteq> {guard t}"
  "{c \<in> set (guard_calls t s event). \<not> is_GuardCall c} = {}"
  by (auto simp: guard_calls_def)

lemma firing_calls_callees:
  "{c \<in> set (firing_calls t s s' event). is_GuardCall c} = {}"
  "callee ` {c \<in> set (firing_calls t s s' event). \<not> is_GuardCall c}
     \<subseteq> {exitAction s, action t, entryAction s'}"
  by (auto simp: firing_calls_def)

lemma firing_calls_comprehension:
  "firing_calls t s s' event =
     [ActionCall f d event.
        (f, d) \<leftarrow> [(exitAction s, sdata s), (action t, sdata s), (entryAction s', sdata s')],
        f \<noteq> NULL]"
  by (simp add: firing_calls_def)

section \<open>Facts about the concrete machine\<close>

lemma demo_keep: "callbacks_keep_machine fsm demo_guards demo_actions"
  by (simp add: callbacks_keep_machine_def same_machine_def demo_guards_def demo_actions_def)

lemma demo_pure: "pure_guards demo_guards"
  by (simp add: pure_guards_def demo_guards_def)

lemma demo_fsm1: "fsm_objs demo_memory 30 = Some \<lparr>currentState = 10\<rparr>"
  by (simp add: demo_memory_def)

lemma demo_fsm2: "fsm_objs demo_memory 40 = Some \<lparr>currentState = 20\<rparr>"
  by (simp add: demo_memory_def)

lemma demo_state1:
  "state_objs demo_memory (currentState \<lparr>currentState = 10\<rparr>) = Some demo_locked"
  by (simp add: demo_memory_def)

lemma demo_state2:
  "state_objs demo_memory (currentState \<lparr>currentState = 20\<rparr>) = Some demo_unlocked"
  by (simp add: demo_memory_def)

lemma demo_array:
  "transition_arrays demo_memory (transitions demo_locked) = Some demo_transitions"
  by (simp add: demo_memory_def demo_locked_def)

lemma demo_length: "numTransitions demo_locked \<le> length demo_transitions"
  by (simp add: demo_locked_def demo_transitions_def)

lemma demo_event50: "event_objs demo_memory 50 = Some \<lparr>ID = 5, data = 42\<rparr>"
  by (simp add: demo_memory_def)

lemma demo_event51: "event_objs demo_memory 51 = Some \<lparr>ID = 5, data = 7\<rparr>"
  by (simp add: demo_memory_def)

lemma demo_event52: "event_objs demo_memory 52 = Some \<lparr>ID = 6, data = 0\<rparr>"
  by (simp add: demo_memory_def)

lemma demo_event53: "event_objs demo_memory 53 = Some \<lparr>ID = 9, data = 0\<rparr>"
  by (simp add: demo_memory_def)

lemma demo_match_key:
  "first_match demo_locked demo_transitions \<lparr>ID = 5, data = d\<rparr> =
     Some \<lparr>eventID = 5, nextState = 20, guard = 16, action = 13\<rparr>"
  by (simp add: first_match_def demo_locked_def demo_transitions_def)

lemma demo_match_ping:
  "first_match demo_locked demo_transitions \<lparr>ID = 6, data = 0\<rparr> =
     Some \<lparr>eventID = 6, nextState = 10, guard = NULL, action = 15\<rparr>"
  by (simp add: first_match_def demo_locked_def demo_transitions_def SM_NO_GUARD_def)

lemma demo_target_key:
  "state_objs demo_memory (nextState \<lparr>eventID = 5, nextState = 20, guard = 16, action = 13\<rparr>) =
     Some demo_unlocked"
  by (simp add: demo_memory_def)

lemma demo_target_ping:
  "state_objs demo_memory (nextState \<lparr>eventID = 6, nextState = 10, guard = NULL, action = 15\<rparr>) =
     Some demo_locked"
  by (simp add: demo_memory_def)

lemma demo_guard_accepts:
  "guard \<lparr>eventID = 5, nextState = 20, guard = 16, action = 13\<rparr> = NULL \<or>
   fst (demo_guards (guard \<lparr>eventID = 5, nextState = 20, guard = 16, action = 13\<rparr>)
          (sdata demo_locked) 50 demo_memory)"
  by (simp add: demo_guards_def demo_memory_def)

lemma demo_guard_present:
  "guard \<lparr>eventID = 5, nextState = 20, guard = 16, action = 13\<rparr> \<noteq> NULL"
  by (simp add: NULL_def)

lemma demo_guard_rejects:
  "\<not> fst (demo_guards (guard \<lparr>eventID = 5, nextState = 20, guard = 16, action = 13\<rparr>)
            (sdata demo_locked) 51 demo_memory)"
  by (simp add: demo_guards_def demo_memory_def)

lemma demo_guard_absent:
  "guard \<lparr>eventID = 6, nextState = 10, guard = NULL, action = 15\<rparr> = NULL \<or>
   fst (demo_guards (guard \<lparr>eventID = 6, nextState = 10, guard = NULL, action = 15\<rparr>)
          (sdata demo_locked) 52 demo_memory)"
  by simp

lemma demo_no_match:
  "numTransitions demo_locked = 0 \<or>
   (\<exists>ts ev. transition_arrays demo_memory (transitions demo_locked) = Some ts \<and>
             numTransitions demo_locked \<le> length ts \<and>
             event_objs demo_memory 53 = Some ev \<and>
             (\<forall>t \<in> set (take (numTransitions demo_locked) ts). eventID t \<noteq> ID ev))"
proof -
  have "\<forall>t \<in> set (take (numTransitions demo_locked) demo_transitions).
          eventID t \<noteq> ID \<lparr>ID = 9, data = 0\<rparr>"
    by (simp add: demo_locked_def demo_transitions_def)
  with demo_array demo_length demo_event53 show ?thesis by blast
qed

lemma demo_no_transitions:
  "numTransitions demo_unlocked = 0 \<or>
   (\<exists>ts ev. transition_arrays demo_memory (transitions demo_unlocked) = Some ts \<and>
             numTransitions demo_unlocked \<le> length ts \<and>
             event_objs demo_memory 50 = Some ev \<and>
             (\<forall>t \<in> set (take (numTransitions demo_unlocked) ts). eventID t \<noteq> ID ev))"
  by (simp add: demo_unlocked_def)

lemma demo_targets:
  "\<forall>t \<in> set (take (numTransitions demo_locked) demo_transitions).
     state_objs demo_memory (nextState t) \<noteq> None"
  by (simp add: demo_locked_def demo_transitions_def demo_memory_def)

text \<open>Two runs of the machine at 30, evaluated: the key is accepted, the key is refused.\<close>

lemma demo_run_key:
  "fsm_handle_event demo_guards demo_actions 30 50 demo_memory =
     Some (True,
       demo_memory
         \<lparr>fsm_objs := (fsm_objs demo_memory)(30 \<mapsto> \<lparr>currentState = 20\<rparr>),
          user := [GuardCall 16 1 50, ActionCall 12 1 50, ActionCall 13 1 50,
                   ActionCall 21 2 50]\<rparr>,
       [GuardCall 16 1 50, ActionCall 12 1 50, ActionCall 13 1 50, ActionCall 21 2 50])"
proof -
  have "user demo_memory = []"
    by (simp add: demo_memory_def)
  then show ?thesis
    using dispatch_first_match [OF demo_keep demo_fsm1 demo_state1 demo_array demo_length
      demo_event50 demo_match_key] demo_target_key demo_guard_accepts
    by (simp add: guard_calls_def firing_calls_def run_calls_def demo_guards_def
        demo_actions_def demo_locked_def demo_unlocked_def NULL_def)
qed


section \<open>The properties\<close>

text \<open>
  The theorems below are about a dispatch on a well-formed memory: the machine, its
  current state, the state's transition array (at least \<^verbatim>\<open>numTransitions\<close> long) and
  the event are valid objects, and so is the target of the transition that fires. They
  take callbacks that keep the machine and the topology, as the specification does.
\<close>

text \<open>
  Claim C1. When the first transition of the current state whose event identifier equals
  the event's has no guard, or a guard that evaluates to true, \<^verbatim>\<open>fsm_handle_event\<close>
  returns true; the actions it calls are the current state's exit action, the
  transition's action and the target state's entry action, those that are present, once
  each and in that order; the memory at return is the one these calls leave, with the
  machine's current state set to the transition's target.
\<close>

theorem C1_transition_fires:
  assumes "callbacks_keep_machine fsm gfun afun"
    and "fsm_objs m fsm = Some sm"
    and "state_objs m (currentState sm) = Some s"
    and "transition_arrays m (transitions s) = Some ts"
    and "numTransitions s \<le> length ts"
    and "event_objs m event = Some ev"
    and "first_match s ts ev = Some t"
    and "state_objs m (nextState t) = Some s'"
    and "guard t = NULL \<or> fst (gfun (guard t) (sdata s) event m)"
  shows "\<exists>m' calls.
           fsm_handle_event gfun afun fsm event m = Some (True, m', calls) \<and>
           map callee (filter (\<lambda>c. \<not> is_GuardCall c) calls) =
             filter (\<lambda>f. f \<noteq> NULL) [exitAction s, action t, entryAction s'] \<and>
           m' = (run_calls gfun afun calls m)
                  \<lparr>fsm_objs := (fsm_objs (run_calls gfun afun calls m))
                                 (fsm \<mapsto> \<lparr>currentState = nextState t\<rparr>)\<rparr> \<and>
           fsm_objs m' fsm = Some \<lparr>currentState = nextState t\<rparr>"
  using dispatch_first_match [OF assms(1-7)] assms(8,9)
  by (simp add: guard_calls_def firing_calls_def)

theorem C1_transition_fires_witness:
  "\<exists>m' calls.
     fsm_handle_event demo_guards demo_actions 30 50 demo_memory = Some (True, m', calls) \<and>
     map callee (filter (\<lambda>c. \<not> is_GuardCall c) calls) = [12, 13, 21] \<and>
     fsm_objs m' 30 = Some \<lparr>currentState = 20\<rparr>"
  using C1_transition_fires [OF demo_keep demo_fsm1 demo_state1 demo_array demo_length
      demo_event50 demo_match_key demo_target_key demo_guard_accepts]
  by (auto simp: demo_locked_def demo_unlocked_def NULL_def)

text \<open>
  Claim C2. When no declared transition of the current state has the event's identifier
  (in particular when the state declares no transition at all, whatever its
  \<^verbatim>\<open>transitions\<close> pointer and the event pointer are), \<^verbatim>\<open>fsm_handle_event\<close> returns
  false, makes no call and returns the memory it was given: the current state is
  unchanged.
\<close>

theorem C2_no_match:
  assumes "fsm_objs m fsm = Some sm"
    and "state_objs m (currentState sm) = Some s"
    and "numTransitions s = 0 \<or>
         (\<exists>ts ev. transition_arrays m (transitions s) = Some ts \<and>
                   numTransitions s \<le> length ts \<and>
                   event_objs m event = Some ev \<and>
                   (\<forall>t \<in> set (take (numTransitions s) ts). eventID t \<noteq> ID ev))"
  shows "fsm_handle_event gfun afun fsm event m = Some (False, m, [])"
proof -
  have cur: "current_state m fsm = Some s"
    using assms(1,2) by (simp add: current_state_def)
  from assms(3) have "\<exists>n. find_transition m fsm event 0 = Some (None, n)"
  proof
    assume "numTransitions s = 0"
    with cur show ?thesis by (simp add: find_transition_exhausted)
  next
    assume "\<exists>ts ev. transition_arrays m (transitions s) = Some ts \<and>
                   numTransitions s \<le> length ts \<and>
                   event_objs m event = Some ev \<and>
                   (\<forall>t \<in> set (take (numTransitions s) ts). eventID t \<noteq> ID ev)"
    then obtain ts ev where h: "transition_arrays m (transitions s) = Some ts"
        "numTransitions s \<le> length ts" "event_objs m event = Some ev"
        "\<forall>t \<in> set (take (numTransitions s) ts). eventID t \<noteq> ID ev"
      by blast
    from h(4) have "first_match s ts ev = None"
      by (simp add: first_match_def find_None_iff)
    from find_transition_no_match [OF cur h(1-3) this] show ?thesis by blast
  qed
  then show ?thesis by (auto simp: fsm_handle_event_not_found)
qed

theorem C2_no_match_witness:
  "fsm_handle_event demo_guards demo_actions 30 53 demo_memory = Some (False, demo_memory, []) \<and>
   fsm_handle_event demo_guards demo_actions 40 50 demo_memory = Some (False, demo_memory, [])"
  using C2_no_match [OF demo_fsm1 demo_state1 demo_no_match]
    C2_no_match [OF demo_fsm2 demo_state2 demo_no_transitions]
  by simp

text \<open>
  Claim C3. When the guard of the first matching transition evaluates to false,
  \<^verbatim>\<open>fsm_handle_event\<close> returns false; the guard is the only call made, so neither the
  exit action, nor the transition's action, nor the entry action runs; the memory at
  return is the one the guard left, in which the machine is in the state it was in.
\<close>

theorem C3_guard_declines:
  assumes "callbacks_keep_machine fsm gfun afun"
    and "fsm_objs m fsm = Some sm"
    and "state_objs m (currentState sm) = Some s"
    and "transition_arrays m (transitions s) = Some ts"
    and "numTransitions s \<le> length ts"
    and "event_objs m event = Some ev"
    and "first_match s ts ev = Some t"
    and "guard t \<noteq> NULL"
    and "\<not> fst (gfun (guard t) (sdata s) event m)"
  shows "fsm_handle_event gfun afun fsm event m =
           Some (False, snd (gfun (guard t) (sdata s) event m),
                 [GuardCall (guard t) (sdata s) event]) \<and>
         fsm_objs (snd (gfun (guard t) (sdata s) event m)) fsm = Some sm"
proof -
  have "same_machine fsm m (snd (gfun (guard t) (sdata s) event m))"
    by (rule keep_machine_guard [OF assms(1)])
  then show ?thesis
    using dispatch_first_match [OF assms(1-7)] assms(2,8,9)
    by (simp add: guard_calls_def run_calls_guard same_machine_def)
qed

theorem C3_guard_declines_witness:
  "fsm_handle_event demo_guards demo_actions 30 51 demo_memory =
     Some (False, demo_memory\<lparr>user := [GuardCall 16 1 51]\<rparr>, [GuardCall 16 1 51]) \<and>
   fsm_objs (demo_memory\<lparr>user := [GuardCall 16 1 51]\<rparr>) 30 = Some \<lparr>currentState = 10\<rparr>"
proof -
  have "snd (demo_guards (guard \<lparr>eventID = 5, nextState = 20, guard = 16, action = 13\<rparr>)
               (sdata demo_locked) 51 demo_memory) =
          demo_memory\<lparr>user := [GuardCall 16 1 51]\<rparr>"
    by (simp add: demo_guards_def demo_memory_def demo_locked_def)
  with C3_guard_declines [OF demo_keep demo_fsm1 demo_state1 demo_array demo_length
      demo_event51 demo_match_key demo_guard_present demo_guard_rejects]
  show ?thesis by (simp add: demo_locked_def demo_fsm1)
qed

text \<open>
  Claim C4. When two declared transitions of the current state, at indices \<open>i < j\<close>, carry
  the event's identifier and \<open>i\<close> is the first index that does, a dispatch evaluates
  the transition at \<open>i\<close> only: the result is the verdict of its guard (true when it has
  none), the only guard called is its guard and the only actions called are the exit
  action, its action and the entry action of its target, and when its guard rejects
  the event nothing else is called, the result is false and the current state stays.
  In particular no call is made to the guard or the action of the transition at \<open>j\<close>,
  unless the same function is also one of those called for the transition at \<open>i\<close>.
\<close>

theorem C4_first_duplicate_wins:
  assumes "callbacks_keep_machine fsm gfun afun"
    and "fsm_objs m fsm = Some sm"
    and "state_objs m (currentState sm) = Some s"
    and "transition_arrays m (transitions s) = Some ts"
    and "numTransitions s \<le> length ts"
    and "event_objs m event = Some ev"
    and "i < j" and "j < numTransitions s"
    and "eventID (ts ! i) = ID ev" and "eventID (ts ! j) = ID ev"
    and "\<forall>k<i. eventID (ts ! k) \<noteq> ID ev"
    and "state_objs m (nextState (ts ! i)) = Some s'"
  shows "\<exists>r m' calls.
           fsm_handle_event gfun afun fsm event m = Some (r, m', calls) \<and>
           r = (guard (ts ! i) = NULL \<or> fst (gfun (guard (ts ! i)) (sdata s) event m)) \<and>
           calls =
             (if guard (ts ! i) \<noteq> NULL then [GuardCall (guard (ts ! i)) (sdata s) event] else []) @
             (if r then [ActionCall f d event.
                           (f, d) \<leftarrow> [(exitAction s, sdata s), (action (ts ! i), sdata s),
                                     (entryAction s', sdata s')], f \<noteq> NULL]
              else []) \<and>
           (guard (ts ! j) \<noteq> guard (ts ! i) \<longrightarrow>
              guard (ts ! j) \<notin> callee ` {c \<in> set calls. is_GuardCall c}) \<and>
           (action (ts ! j) \<notin> {exitAction s, action (ts ! i), entryAction s'} \<longrightarrow>
              action (ts ! j) \<notin> callee ` {c \<in> set calls. \<not> is_GuardCall c}) \<and>
           fsm_objs m' fsm =
             Some \<lparr>currentState = (if r then nextState (ts ! i) else currentState sm)\<rparr>"
proof -
  let ?t = "ts ! i"
  let ?gc = "guard_calls ?t s event"
  let ?fc = "firing_calls ?t s s' event"
  have fm: "first_match s ts ev = Some ?t"
    using assms(5,7,8,9,11) by (intro first_match_at_index) auto
  have cursor: "fsm_objs (run_calls gfun afun ?gc m) fsm = fsm_objs m fsm"
    using keep_machine_run_calls [OF assms(1), of m ?gc] by (simp add: same_machine_def)
  have sm: "sm = \<lparr>currentState = currentState sm\<rparr>"
    by (cases sm) simp
  have gc: "?gc = (if guard ?t \<noteq> NULL then [GuardCall (guard ?t) (sdata s) event] else [])"
    by (simp add: guard_calls_def)
  show ?thesis
  proof (cases "guard ?t = NULL \<or> fst (gfun (guard ?t) (sdata s) event m)")
    case True
    let ?m' = "(run_calls gfun afun (?gc @ ?fc) m)
                 \<lparr>fsm_objs := (fsm_objs (run_calls gfun afun (?gc @ ?fc) m))
                                (fsm \<mapsto> \<lparr>currentState = nextState ?t\<rparr>)\<rparr>"
    have run: "fsm_handle_event gfun afun fsm event m = Some (True, ?m', ?gc @ ?fc)"
      using dispatch_first_match [OF assms(1-6) fm] assms(12) True by simp
    have g: "callee ` {c \<in> set (?gc @ ?fc). is_GuardCall c} \<subseteq> {guard ?t}"
      using guard_calls_callees(1) [of ?t s event] firing_calls_callees(1) [of ?t s s' event]
      by auto
    have a: "callee ` {c \<in> set (?gc @ ?fc). \<not> is_GuardCall c}
               \<subseteq> {exitAction s, action ?t, entryAction s'}"
      using guard_calls_callees(2) [of ?t s event] firing_calls_callees(2) [of ?t s s' event]
      by auto
    show ?thesis
    proof (intro exI conjI)
      show "fsm_handle_event gfun afun fsm event m = Some (True, ?m', ?gc @ ?fc)" by (rule run)
      show "True = (guard ?t = NULL \<or> fst (gfun (guard ?t) (sdata s) event m))"
        using True by simp
      show "?gc @ ?fc =
             (if guard ?t \<noteq> NULL then [GuardCall (guard ?t) (sdata s) event] else []) @
             (if True then [ActionCall f d event.
                           (f, d) \<leftarrow> [(exitAction s, sdata s), (action ?t, sdata s),
                                     (entryAction s', sdata s')], f \<noteq> NULL]
              else [])"
        by (simp only: gc firing_calls_comprehension if_True)
      show "guard (ts ! j) \<noteq> guard ?t \<longrightarrow>
              guard (ts ! j) \<notin> callee ` {c \<in> set (?gc @ ?fc). is_GuardCall c}"
        using g by blast
      show "action (ts ! j) \<notin> {exitAction s, action ?t, entryAction s'} \<longrightarrow>
              action (ts ! j) \<notin> callee ` {c \<in> set (?gc @ ?fc). \<not> is_GuardCall c}"
        using a by blast
      show "fsm_objs ?m' fsm =
              Some \<lparr>currentState = (if True then nextState ?t else currentState sm)\<rparr>"
        by simp
    qed
  next
    case False
    let ?m' = "run_calls gfun afun ?gc m"
    have run: "fsm_handle_event gfun afun fsm event m = Some (False, ?m', ?gc)"
      using dispatch_first_match [OF assms(1-6) fm] False by simp
    show ?thesis
    proof (intro exI conjI)
      show "fsm_handle_event gfun afun fsm event m = Some (False, ?m', ?gc)" by (rule run)
      show "False = (guard ?t = NULL \<or> fst (gfun (guard ?t) (sdata s) event m))"
        using False by simp
      show "?gc =
             (if guard ?t \<noteq> NULL then [GuardCall (guard ?t) (sdata s) event] else []) @
             (if False then [ActionCall f d event.
                           (f, d) \<leftarrow> [(exitAction s, sdata s), (action ?t, sdata s),
                                     (entryAction s', sdata s')], f \<noteq> NULL]
              else [])"
        by (simp add: gc)
      show "guard (ts ! j) \<noteq> guard ?t \<longrightarrow>
              guard (ts ! j) \<notin> callee ` {c \<in> set ?gc. is_GuardCall c}"
        using guard_calls_callees(1) [of ?t s event] by blast
      show "action (ts ! j) \<notin> {exitAction s, action ?t, entryAction s'} \<longrightarrow>
              action (ts ! j) \<notin> callee ` {c \<in> set ?gc. \<not> is_GuardCall c}"
        using guard_calls_callees(2) [of ?t s event] by blast
      show "fsm_objs ?m' fsm =
              Some \<lparr>currentState = (if False then nextState ?t else currentState sm)\<rparr>"
        using cursor assms(2) sm by simp
    qed
  qed
qed

theorem C4_first_duplicate_wins_witness:
  "(\<exists>m'. fsm_handle_event demo_guards demo_actions 30 51 demo_memory =
            Some (False, m', [GuardCall 16 1 51]) \<and>
          fsm_objs m' 30 = Some \<lparr>currentState = 10\<rparr>) \<and>
   (\<exists>m'. fsm_handle_event demo_guards demo_actions 30 50 demo_memory =
            Some (True, m', [GuardCall 16 1 50, ActionCall 12 1 50, ActionCall 13 1 50,
                             ActionCall 21 2 50]) \<and>
          fsm_objs m' 30 = Some \<lparr>currentState = 20\<rparr>)"
proof -
  have dup: "(0::nat) < 1" "1 < numTransitions demo_locked"
      "eventID (demo_transitions ! 0) = ID \<lparr>ID = 5, data = d\<rparr>"
      "eventID (demo_transitions ! 1) = ID \<lparr>ID = 5, data = d\<rparr>"
      "\<forall>k<0. eventID (demo_transitions ! k) \<noteq> ID \<lparr>ID = 5, data = d\<rparr>"
      "state_objs demo_memory (nextState (demo_transitions ! 0)) = Some demo_unlocked" for d
    by (simp_all add: demo_locked_def demo_transitions_def demo_memory_def)
  have g: "fst (demo_guards f d 50 demo_memory)" "\<not> fst (demo_guards f d 51 demo_memory)" for f d
    by (simp_all add: demo_guards_def demo_memory_def)
  have t0: "demo_transitions ! 0 = \<lparr>eventID = 5, nextState = 20, guard = 16, action = 13\<rparr>"
    by (simp add: demo_transitions_def)
  from C4_first_duplicate_wins [OF demo_keep demo_fsm1 demo_state1 demo_array demo_length
      demo_event51 dup]
  obtain r m' calls where
    "fsm_handle_event demo_guards demo_actions 30 51 demo_memory = Some (r, m', calls)"
    "r = (guard (demo_transitions ! 0) = NULL \<or>
          fst (demo_guards (guard (demo_transitions ! 0)) (sdata demo_locked) 51 demo_memory))"
    "calls =
       (if guard (demo_transitions ! 0) \<noteq> NULL
        then [GuardCall (guard (demo_transitions ! 0)) (sdata demo_locked) 51] else []) @
       (if r then [ActionCall f d 51.
                     (f, d) \<leftarrow> [(exitAction demo_locked, sdata demo_locked),
                               (action (demo_transitions ! 0), sdata demo_locked),
                               (entryAction demo_unlocked, sdata demo_unlocked)], f \<noteq> NULL]
        else [])"
    "fsm_objs m' 30 =
       Some \<lparr>currentState = (if r then nextState (demo_transitions ! 0)
                              else currentState \<lparr>currentState = 10\<rparr>)\<rparr>"
    by blast
  then have rejected: "\<exists>m'. fsm_handle_event demo_guards demo_actions 30 51 demo_memory =
            Some (False, m', [GuardCall 16 1 51]) \<and>
          fsm_objs m' 30 = Some \<lparr>currentState = 10\<rparr>"
    by (simp add: t0 g NULL_def demo_locked_def)
  from C4_first_duplicate_wins [OF demo_keep demo_fsm1 demo_state1 demo_array demo_length
      demo_event50 dup]
  obtain r m' calls where
    "fsm_handle_event demo_guards demo_actions 30 50 demo_memory = Some (r, m', calls)"
    "r = (guard (demo_transitions ! 0) = NULL \<or>
          fst (demo_guards (guard (demo_transitions ! 0)) (sdata demo_locked) 50 demo_memory))"
    "calls =
       (if guard (demo_transitions ! 0) \<noteq> NULL
        then [GuardCall (guard (demo_transitions ! 0)) (sdata demo_locked) 50] else []) @
       (if r then [ActionCall f d 50.
                     (f, d) \<leftarrow> [(exitAction demo_locked, sdata demo_locked),
                               (action (demo_transitions ! 0), sdata demo_locked),
                               (entryAction demo_unlocked, sdata demo_unlocked)], f \<noteq> NULL]
        else [])"
    "fsm_objs m' 30 =
       Some \<lparr>currentState = (if r then nextState (demo_transitions ! 0)
                              else currentState \<lparr>currentState = 10\<rparr>)\<rparr>"
    by blast
  then have accepted: "\<exists>m'. fsm_handle_event demo_guards demo_actions 30 50 demo_memory =
            Some (True, m', [GuardCall 16 1 50, ActionCall 12 1 50, ActionCall 13 1 50,
                             ActionCall 21 2 50]) \<and>
          fsm_objs m' 30 = Some \<lparr>currentState = 20\<rparr>"
    by (simp add: t0 g NULL_def demo_locked_def demo_unlocked_def)
  from rejected accepted show ?thesis by (rule conjI)
qed

text \<open>
  Claim C5. In a dispatch that fires a transition, the exit action and the transition's
  action are called with the payload of the state the machine is leaving, the entry
  action with the payload of the target state, and all three with the event pointer
  the dispatcher was given: these are the calls made after the guard's, and the memory
  at return is the one that these very calls leave, made in that order, with the
  machine's current state set to the target.
\<close>

theorem C5_callback_arguments:
  assumes "callbacks_keep_machine fsm gfun afun"
    and "fsm_objs m fsm = Some sm"
    and "state_objs m (currentState sm) = Some s"
    and "transition_arrays m (transitions s) = Some ts"
    and "numTransitions s \<le> length ts"
    and "event_objs m event = Some ev"
    and "first_match s ts ev = Some t"
    and "state_objs m (nextState t) = Some s'"
    and "guard t = NULL \<or> fst (gfun (guard t) (sdata s) event m)"
  shows "\<exists>m' calls.
           fsm_handle_event gfun afun fsm event m = Some (True, m', calls) \<and>
           calls =
             (if guard t \<noteq> NULL then [GuardCall (guard t) (sdata s) event] else []) @
             [ActionCall f d event.
                (f, d) \<leftarrow> [(exitAction s, sdata s), (action t, sdata s), (entryAction s', sdata s')],
                f \<noteq> NULL] \<and>
           filter (\<lambda>c. \<not> is_GuardCall c) calls =
             [ActionCall f d event.
                (f, d) \<leftarrow> [(exitAction s, sdata s), (action t, sdata s), (entryAction s', sdata s')],
                f \<noteq> NULL] \<and>
           m' = (run_calls gfun afun calls m)
                  \<lparr>fsm_objs := (fsm_objs (run_calls gfun afun calls m))
                                 (fsm \<mapsto> \<lparr>currentState = nextState t\<rparr>)\<rparr>"
  using dispatch_first_match [OF assms(1-7)] assms(8,9)
  by (simp add: guard_calls_def firing_calls_def)

theorem C5_callback_arguments_witness:
  "\<exists>m' calls.
     fsm_handle_event demo_guards demo_actions 30 50 demo_memory = Some (True, m', calls) \<and>
     calls = [GuardCall 16 1 50, ActionCall 12 1 50, ActionCall 13 1 50, ActionCall 21 2 50] \<and>
     filter (\<lambda>c. \<not> is_GuardCall c) calls =
       [ActionCall 12 1 50, ActionCall 13 1 50, ActionCall 21 2 50] \<and>
     user m' = [GuardCall 16 1 50, ActionCall 12 1 50, ActionCall 13 1 50, ActionCall 21 2 50] \<and>
     fsm_objs m' 30 = Some \<lparr>currentState = 20\<rparr>"
proof -
  have "user demo_memory = []"
    by (simp add: demo_memory_def)
  then have run: "run_calls demo_guards demo_actions
      [GuardCall 16 1 50, ActionCall 12 1 50, ActionCall 13 1 50, ActionCall 21 2 50]
      demo_memory =
    demo_memory\<lparr>user := [GuardCall 16 1 50, ActionCall 12 1 50, ActionCall 13 1 50,
                           ActionCall 21 2 50]\<rparr>"
    by (simp add: run_calls_def demo_guards_def demo_actions_def)
  from C5_callback_arguments [OF demo_keep demo_fsm1 demo_state1 demo_array demo_length
      demo_event50 demo_match_key demo_target_key demo_guard_accepts]
  show ?thesis
    by (simp add: demo_locked_def demo_unlocked_def NULL_def run)
qed

text \<open>
  Claim C6. When a matching transition is found, its guard, if it has one, is called
  exactly once, before any other callback, with the current state's payload and the
  event, and the dispatch returns its verdict. A transition with no guard behaves as one
  whose guard is true: no guard is called and the transition fires. Firing means that
  the exit action, the action and the entry action (those present) are called next,
  that the memory at return is the one all these calls leave, and that the machine's
  current state is the transition's target; not firing means that the memory at return
  is the one the guard left.
\<close>

theorem C6_guard_evaluated_once:
  assumes "callbacks_keep_machine fsm gfun afun"
    and "fsm_objs m fsm = Some sm"
    and "state_objs m (currentState sm) = Some s"
    and "transition_arrays m (transitions s) = Some ts"
    and "numTransitions s \<le> length ts"
    and "event_objs m event = Some ev"
    and "first_match s ts ev = Some t"
    and "state_objs m (nextState t) = Some s'"
  shows "\<exists>r m' calls.
           fsm_handle_event gfun afun fsm event m = Some (r, m', calls) \<and>
           r = (guard t = NULL \<or> fst (gfun (guard t) (sdata s) event m)) \<and>
           filter is_GuardCall calls =
             (if guard t = NULL then [] else [GuardCall (guard t) (sdata s) event]) \<and>
           calls =
             (if guard t = NULL then [] else [GuardCall (guard t) (sdata s) event]) @
             (if r then [ActionCall f d event.
                           (f, d) \<leftarrow> [(exitAction s, sdata s), (action t, sdata s),
                                     (entryAction s', sdata s')], f \<noteq> NULL]
              else []) \<and>
           m' = (if r
                 then (run_calls gfun afun calls m)
                        \<lparr>fsm_objs := (fsm_objs (run_calls gfun afun calls m))
                                       (fsm \<mapsto> \<lparr>currentState = nextState t\<rparr>)\<rparr>
                 else run_calls gfun afun calls m) \<and>
           fsm_objs m' fsm =
             Some \<lparr>currentState = (if r then nextState t else currentState sm)\<rparr>"
proof (cases "guard t = NULL \<or> fst (gfun (guard t) (sdata s) event m)")
  case True
  with dispatch_first_match [OF assms(1-7)] assms(8) show ?thesis
    by (intro exI [of _ True]) (simp add: guard_calls_def firing_calls_def)
next
  case False
  have "same_machine fsm m (run_calls gfun afun (guard_calls t s event) m)"
    by (rule keep_machine_run_calls [OF assms(1)])
  then have cursor: "fsm_objs (run_calls gfun afun (guard_calls t s event) m) fsm = Some sm"
    using assms(2) by (simp add: same_machine_def)
  have sm: "\<lparr>currentState = currentState sm\<rparr> = sm"
    by (cases sm) simp
  from False dispatch_first_match [OF assms(1-7)] cursor sm show ?thesis
    by (intro exI [of _ False]) (simp add: guard_calls_def)
qed

theorem C6_guard_evaluated_once_witness:
  "(\<exists>m' calls.
      fsm_handle_event demo_guards demo_actions 30 50 demo_memory = Some (True, m', calls) \<and>
      filter is_GuardCall calls = [GuardCall 16 1 50] \<and>
      calls = [GuardCall 16 1 50, ActionCall 12 1 50, ActionCall 13 1 50, ActionCall 21 2 50] \<and>
      user m' = [GuardCall 16 1 50, ActionCall 12 1 50, ActionCall 13 1 50, ActionCall 21 2 50] \<and>
      fsm_objs m' 30 = Some \<lparr>currentState = 20\<rparr>) \<and>
   (\<exists>m' calls.
      fsm_handle_event demo_guards demo_actions 30 52 demo_memory = Some (True, m', calls) \<and>
      filter is_GuardCall calls = [] \<and>
      calls = [ActionCall 12 1 52, ActionCall 15 1 52, ActionCall 11 1 52] \<and>
      user m' = [ActionCall 12 1 52, ActionCall 15 1 52, ActionCall 11 1 52] \<and>
      fsm_objs m' 30 = Some \<lparr>currentState = 10\<rparr>) \<and>
   (\<exists>m' calls.
      fsm_handle_event demo_guards demo_actions 30 51 demo_memory = Some (False, m', calls) \<and>
      filter is_GuardCall calls = [GuardCall 16 1 51] \<and>
      calls = [GuardCall 16 1 51] \<and>
      user m' = [GuardCall 16 1 51] \<and>
      fsm_objs m' 30 = Some \<lparr>currentState = 10\<rparr>)"
proof -
  have log: "user demo_memory = []"
    by (simp add: demo_memory_def)
  have run50: "run_calls demo_guards demo_actions
      [GuardCall 16 1 50, ActionCall 12 1 50, ActionCall 13 1 50, ActionCall 21 2 50]
      demo_memory =
    demo_memory\<lparr>user := [GuardCall 16 1 50, ActionCall 12 1 50, ActionCall 13 1 50,
                           ActionCall 21 2 50]\<rparr>"
    using log by (simp add: run_calls_def demo_guards_def demo_actions_def)
  have run52: "run_calls demo_guards demo_actions
      [ActionCall 12 1 52, ActionCall 15 1 52, ActionCall 11 1 52] demo_memory =
    demo_memory\<lparr>user := [ActionCall 12 1 52, ActionCall 15 1 52, ActionCall 11 1 52]\<rparr>"
    using log by (simp add: run_calls_def demo_actions_def)
  have run51: "run_calls demo_guards demo_actions [GuardCall 16 1 51] demo_memory =
    demo_memory\<lparr>user := [GuardCall 16 1 51]\<rparr>"
    using log by (simp add: run_calls_def demo_guards_def)
  have verdicts:
    "fst (demo_guards f d 50 demo_memory)" "\<not> fst (demo_guards f d 51 demo_memory)" for f d
    by (simp_all add: demo_guards_def demo_memory_def)
  from C6_guard_evaluated_once [OF demo_keep demo_fsm1 demo_state1 demo_array demo_length
      demo_event50 demo_match_key demo_target_key]
  have accepted: "\<exists>m' calls.
      fsm_handle_event demo_guards demo_actions 30 50 demo_memory = Some (True, m', calls) \<and>
      filter is_GuardCall calls = [GuardCall 16 1 50] \<and>
      calls = [GuardCall 16 1 50, ActionCall 12 1 50, ActionCall 13 1 50, ActionCall 21 2 50] \<and>
      user m' = [GuardCall 16 1 50, ActionCall 12 1 50, ActionCall 13 1 50, ActionCall 21 2 50] \<and>
      fsm_objs m' 30 = Some \<lparr>currentState = 20\<rparr>"
    by (elim exE conjE) (simp add: NULL_def demo_locked_def demo_unlocked_def verdicts run50)
  from C6_guard_evaluated_once [OF demo_keep demo_fsm1 demo_state1 demo_array demo_length
      demo_event52 demo_match_ping demo_target_ping]
  have unguarded: "\<exists>m' calls.
      fsm_handle_event demo_guards demo_actions 30 52 demo_memory = Some (True, m', calls) \<and>
      filter is_GuardCall calls = [] \<and>
      calls = [ActionCall 12 1 52, ActionCall 15 1 52, ActionCall 11 1 52] \<and>
      user m' = [ActionCall 12 1 52, ActionCall 15 1 52, ActionCall 11 1 52] \<and>
      fsm_objs m' 30 = Some \<lparr>currentState = 10\<rparr>"
    by (elim exE conjE) (simp add: NULL_def demo_locked_def run52)
  from C6_guard_evaluated_once [OF demo_keep demo_fsm1 demo_state1 demo_array demo_length
      demo_event51 demo_match_key demo_target_key]
  have refused: "\<exists>m' calls.
      fsm_handle_event demo_guards demo_actions 30 51 demo_memory = Some (False, m', calls) \<and>
      filter is_GuardCall calls = [GuardCall 16 1 51] \<and>
      calls = [GuardCall 16 1 51] \<and>
      user m' = [GuardCall 16 1 51] \<and>
      fsm_objs m' 30 = Some \<lparr>currentState = 10\<rparr>"
    by (elim exE conjE) (simp add: NULL_def demo_locked_def verdicts run51)
  from accepted unguarded refused show ?thesis by (intro conjI)
qed



text \<open>
  Claim C8. A dispatch completes and returns a boolean: the search loop runs its body at
  most \<^verbatim>\<open>numTransitions\<close> times (the recursion of \<open>find_transition\<close> is well-founded
  on \<^verbatim>\<open>numTransitions - i\<close>), no pointer it dereferences is invalid, and it makes at
  most four calls, each to a callback that returns.
\<close>

theorem C8_dispatch_completes:
  assumes "callbacks_keep_machine fsm gfun afun"
    and "fsm_objs m fsm = Some sm"
    and "state_objs m (currentState sm) = Some s"
    and "transition_arrays m (transitions s) = Some ts"
    and "numTransitions s \<le> length ts"
    and "event_objs m event = Some ev"
    and "\<forall>t \<in> set (take (numTransitions s) ts). state_objs m (nextState t) \<noteq> None"
  shows "\<exists>found n r m' calls.
           find_transition m fsm event 0 = Some (found, n) \<and> n \<le> numTransitions s \<and>
           fsm_handle_event gfun afun fsm event m = Some (r, m', calls) \<and> length calls \<le> 4"
proof -
  have cur: "current_state m fsm = Some s"
    using assms(2,3) by (simp add: current_state_def)
  show ?thesis
  proof (cases "first_match s ts ev")
    case None
    from find_transition_no_match [OF cur assms(4-6) None] show ?thesis
      by (auto simp: fsm_handle_event_not_found)
  next
    case (Some t)
    from find_transition_first_match [OF cur assms(4-6) Some] obtain j where
      j: "j < numTransitions s"
         "find_transition m fsm event 0 = Some (Some (transitions s, j), Suc j)"
      by blast
    from Some have "t \<in> set (take (numTransitions s) ts)"
      unfolding first_match_def find_Some_iff by (metis nth_mem)
    with assms(7) obtain s' where s': "state_objs m (nextState t) = Some s'"
      by auto
    have "length (guard_calls t s event) \<le> 1" and "length (firing_calls t s s' event) \<le> 3"
      by (simp_all add: guard_calls_def firing_calls_def)
    with dispatch_first_match [OF assms(1-6) Some] s'
    have "\<exists>r m' calls. fsm_handle_event gfun afun fsm event m = Some (r, m', calls) \<and>
            length calls \<le> 4"
      by (cases "guard t = NULL \<or> fst (gfun (guard t) (sdata s) event m)") auto
    with j show ?thesis by auto
  qed
qed

theorem C8_dispatch_completes_witness:
  "\<exists>found n r m' calls.
     find_transition demo_memory 30 50 0 = Some (found, n) \<and> n \<le> 3 \<and>
     fsm_handle_event demo_guards demo_actions 30 50 demo_memory = Some (r, m', calls) \<and>
     length calls \<le> 4"
  using C8_dispatch_completes [OF demo_keep demo_fsm1 demo_state1 demo_array demo_length
      demo_event50 demo_targets]
  by (simp add: demo_locked_def)

text \<open>
  Claim C9. Two dispatches on the same machine with the same event pointer, the same
  callbacks, and memories that hold the same states and transition arrays, the same
  current state of the machine and the same event, but may differ in everything else,
  agree when the guards are pure: both fail or both return, with the same boolean, the
  same current state of the machine and the same calls in the same order.
\<close>

theorem C9_deterministic:
  assumes "callbacks_keep_machine fsm gfun afun"
    and "pure_guards gfun"
    and "same_machine fsm m1 m2"
    and "event_objs m1 event = event_objs m2 event"
  shows "map_option (\<lambda>(r, m', calls). (r, fsm_objs m' fsm, calls))
           (fsm_handle_event gfun afun fsm event m2) =
         map_option (\<lambda>(r, m', calls). (r, fsm_objs m' fsm, calls))
           (fsm_handle_event gfun afun fsm event m1)"
proof -
  have eq: "find_transition m2 fsm event 0 = find_transition m1 fsm event 0"
    by (rule find_transition_same_machine [OF assms(3,4)])
  have top: "fsm_objs m2 fsm = fsm_objs m1 fsm" "state_objs m2 = state_objs m1"
    using assms(3) by (simp_all add: same_machine_def)
  show ?thesis
  proof (cases "find_transition m1 fsm event 0")
    case None
    with eq show ?thesis by (simp add: fsm_handle_event_def)
  next
    case (Some x)
    obtain found n where x: "x = (found, n)" by (cases x)
    show ?thesis
    proof (cases found)
      case None
      with Some x eq top show ?thesis by (simp add: fsm_handle_event_not_found)
    next
      case tp: (Some tp)
      from find_transition_valid [OF Some] obtain sm s where
        v: "fsm_objs m1 fsm = Some sm" "state_objs m1 (currentState sm) = Some s"
        by blast
      from find_transition_deref Some x tp obtain t where t: "deref_transition m1 tp = Some t"
        by blast
      have t2: "deref_transition m2 tp = Some t"
        using t by (simp add: same_machine_deref_transition [OF assms(3)])
      have verdict: "fst (gfun (guard t) (sdata s) event m2) = fst (gfun (guard t) (sdata s) event m1)"
        using assms(2,4) unfolding pure_guards_def by metis
      have run: "fsm_objs (run_calls gfun afun cs m2) fsm =
                 fsm_objs (run_calls gfun afun cs m1) fsm" for cs
        using keep_machine_run_calls [OF assms(1), of m1 cs]
          keep_machine_run_calls [OF assms(1), of m2 cs] top
        by (simp add: same_machine_def)
      show ?thesis
        using dispatch_found [OF assms(1) v, of event tp n t]
          dispatch_found [OF assms(1), where m = m2 and sm = sm and s = s and event = event
            and tp = tp and n = n and t = t]
          Some x tp eq t t2 v top verdict run
        by (auto split: option.splits)
    qed
  qed
qed

theorem C9_deterministic_witness:
  "map_option (\<lambda>(r, m', calls). (r, fsm_objs m' 30, calls))
     (fsm_handle_event demo_guards demo_actions 30 50
        (demo_memory\<lparr>user := [ActionCall 99 0 0]\<rparr>)) =
   Some (True, Some \<lparr>currentState = 20\<rparr>,
         [GuardCall 16 1 50, ActionCall 12 1 50, ActionCall 13 1 50, ActionCall 21 2 50])"
proof -
  have "same_machine 30 demo_memory (demo_memory\<lparr>user := [ActionCall 99 0 0]\<rparr>)"
    and "event_objs demo_memory 50 = event_objs (demo_memory\<lparr>user := [ActionCall 99 0 0]\<rparr>) 50"
    by (simp_all add: same_machine_def)
  from C9_deterministic [OF demo_keep demo_pure this] show ?thesis
    by (simp add: demo_run_key)
qed

text \<open>
  Claim C10. A transition whose target is the current state itself fires like any
  other: the dispatch returns true; after the guard's call, if it has one, it calls the
  state's exit action, the transition's action and the same state's entry action, those
  that are present, once each and in that order, all with that state's payload; the
  memory at return is the one these very calls leave, with the machine's current state
  written again, and the machine is in the same state afterwards.
\<close>

theorem C10_self_loop:
  assumes "callbacks_keep_machine fsm gfun afun"
    and "fsm_objs m fsm = Some sm"
    and "state_objs m (currentState sm) = Some s"
    and "transition_arrays m (transitions s) = Some ts"
    and "numTransitions s \<le> length ts"
    and "event_objs m event = Some ev"
    and "first_match s ts ev = Some t"
    and "nextState t = currentState sm"
    and "guard t = NULL \<or> fst (gfun (guard t) (sdata s) event m)"
  shows "\<exists>m' calls.
           fsm_handle_event gfun afun fsm event m = Some (True, m', calls) \<and>
           calls =
             (if guard t \<noteq> NULL then [GuardCall (guard t) (sdata s) event] else []) @
             [ActionCall f (sdata s) event.
                f \<leftarrow> [exitAction s, action t, entryAction s], f \<noteq> NULL] \<and>
           filter (\<lambda>c. \<not> is_GuardCall c) calls =
             [ActionCall f (sdata s) event.
                f \<leftarrow> [exitAction s, action t, entryAction s], f \<noteq> NULL] \<and>
           m' = (run_calls gfun afun calls m)
                  \<lparr>fsm_objs := (fsm_objs (run_calls gfun afun calls m))
                                 (fsm \<mapsto> \<lparr>currentState = currentState sm\<rparr>)\<rparr> \<and>
           fsm_objs m' fsm = Some sm \<and>
           current_state m' fsm = Some s"
proof -
  have "\<lparr>currentState = currentState sm\<rparr> = sm"
    by (cases sm) simp
  moreover have "same_machine fsm m (run_calls gfun afun cs m)" for cs
    by (rule keep_machine_run_calls [OF assms(1)])
  ultimately show ?thesis
    using dispatch_first_match [OF assms(1-7)] assms(2,3,8,9)
    by (simp add: guard_calls_def firing_calls_def current_state_def same_machine_def)
qed

theorem C10_self_loop_witness:
  "\<exists>m' calls.
     fsm_handle_event demo_guards demo_actions 30 52 demo_memory = Some (True, m', calls) \<and>
     calls = [ActionCall 12 1 52, ActionCall 15 1 52, ActionCall 11 1 52] \<and>
     filter (\<lambda>c. \<not> is_GuardCall c) calls =
       [ActionCall 12 1 52, ActionCall 15 1 52, ActionCall 11 1 52] \<and>
     user m' = [ActionCall 12 1 52, ActionCall 15 1 52, ActionCall 11 1 52] \<and>
     fsm_objs m' 30 = Some \<lparr>currentState = 10\<rparr> \<and>
     current_state m' 30 = Some demo_locked"
proof -
  have loop: "nextState \<lparr>eventID = 6, nextState = 10, guard = NULL, action = 15\<rparr> =
                currentState \<lparr>currentState = 10\<rparr>"
    by simp
  have "user demo_memory = []"
    by (simp add: demo_memory_def)
  then have run: "run_calls demo_guards demo_actions
      [ActionCall 12 1 52, ActionCall 15 1 52, ActionCall 11 1 52] demo_memory =
    demo_memory\<lparr>user := [ActionCall 12 1 52, ActionCall 15 1 52, ActionCall 11 1 52]\<rparr>"
    by (simp add: run_calls_def demo_actions_def)
  from C10_self_loop [OF demo_keep demo_fsm1 demo_state1 demo_array demo_length
      demo_event52 demo_match_ping loop demo_guard_absent]
  show ?thesis by (simp add: NULL_def demo_locked_def run)
qed

end
